theory Spec2Isabelle
  imports Main "HOL-Library.Word"
begin

section \<open>Data model\<close>

text \<open>
  Go's \<open>[]byte\<close> and \<open>string\<close> are both sequences of bytes; an Isabelle \<open>char\<close> is one
  byte, so both are character lists.  Go's \<open>int64\<close> is a 64-bit word read with \<open>sint\<close>.
\<close>

type_synonym bytes = "char list"
type_synonym int64 = "64 word"

text \<open>The errors of \<open>strconv.ParseInt\<close>.\<close>

datatype numerr = ErrSyntax | ErrRange

text \<open>The numeric header field named by a parse error of \<open>Reader.Next\<close>.\<close>

datatype field = FTimestamp | FOwner | FGroup | FMode | FSize

text \<open>
  Every error value of the package, of the \<open>io\<close> functions it calls, and the run-time
  panic of an out-of-range slice expression.
\<close>

datatype error =
    EOF
  | ErrUnexpectedEOF
  | ErrWriteTooLong
  | ErrCannotReadMagic error
  | ErrInvalidMagic
  | ErrInvalidHeaderSize
  | ErrInvalidHeaderEnding
  | ErrCannotParse field numerr
  | PanicSliceBounds

text \<open>
  Modelled from the spec: the declaration of \<open>Header\<close> is not among the source files.
  The spec's data model gives the fields; \<open>Date\<close> is kept as the seconds since the epoch
  (what \<open>header.Date.Unix()\<close> yields and \<open>time.Unix(date, 0)\<close> takes).
\<close>

record Header =
  Name :: string
  Date :: int64
  Uid :: int64
  Gid :: int64
  Mode :: int64
  Size :: int64

text \<open>
  Modelled from the spec: the constants \<open>MagicString\<close> and \<open>HeaderByteSize\<close> are declared
  outside the source files; the spec gives the literal \<open>!<arch>\n\<close> and 60 bytes.
\<close>

definition newline :: char where
  "newline = CHR 0x0A"


definition HeaderByteSize :: nat where
  "HeaderByteSize = 60"

section \<open>The underlying byte sink\<close>

text \<open>
  The \<open>io.Writer\<close> under a \<open>Writer\<close> is an in-memory buffer that records the argument of
  each \<open>Write\<close> call as one chunk and always accepts it in full.
\<close>

type_synonym sink = "bytes list"

definition sink_write :: "bytes \<Rightarrow> sink \<Rightarrow> nat \<times> error option \<times> sink" where
  "sink_write b s = (length b, None, s @ [b])"

section \<open>Number rendering (\<open>strconv.FormatInt\<close>)\<close>

text \<open>The digit table of \<open>strconv\<close>; \<open>FormatInt\<close> indexes it with a digit below the base.\<close>

definition digits :: string where
  "digits = ''0123456789abcdefghijklmnopqrstuvwxyz''"

definition digit_char :: "nat \<Rightarrow> char" where
  "digit_char d = digits ! d"

function fmt_nat :: "nat \<Rightarrow> nat \<Rightarrow> string" where
  "fmt_nat base u =
     (if base < 2 \<or> u < base then [digit_char u]
      else fmt_nat base (u div base) @ [digit_char (u mod base)])"
  by pat_completeness auto
termination
  by (relation "measure (\<lambda>(base, u). u)") auto

declare fmt_nat.simps [simp del]

definition FormatInt :: "int64 \<Rightarrow> nat \<Rightarrow> string" where
  "FormatInt i base =
     (if sint i < 0 then CHR ''-'' # fmt_nat base (nat (- sint i))
      else fmt_nat base (nat (sint i)))"

section \<open>Writer\<close>

record Writer =
  w_io :: sink
  w_n :: int64

definition NewWriter :: "sink \<Rightarrow> Writer" where
  "NewWriter w = \<lparr>w_io = w, w_n = 0\<rparr>"


text \<open>The loop \<open>for len(s) < len(b) { s = s + " " }\<close>.\<close>

function pad_spaces :: "nat \<Rightarrow> string \<Rightarrow> string" where
  "pad_spaces k s = (if length s < k then pad_spaces k (s @ '' '') else s)"
  by pat_completeness auto
termination
  by (relation "measure (\<lambda>(k, s). k - length s)") auto

declare pad_spaces.simps [simp del]

text \<open>Go's \<open>copy(dst, src)\<close>: the first \<open>min(len(dst), len(src))\<close> bytes of \<open>dst\<close> are replaced.\<close>

definition copy_bytes :: "bytes \<Rightarrow> bytes \<Rightarrow> bytes" where
  "copy_bytes dst src =
     (let k = min (length dst) (length src) in take k src @ drop k dst)"

definition writeString :: "bytes \<Rightarrow> string \<Rightarrow> bytes" where
  "writeString b s = copy_bytes b (pad_spaces (length b) s)"

definition writeInt :: "bytes \<Rightarrow> int64 \<Rightarrow> bytes" where
  "writeInt b i = copy_bytes b (pad_spaces (length b) (FormatInt i 10))"

definition writeOctal :: "bytes \<Rightarrow> int64 \<Rightarrow> bytes" where
  "writeOctal b i = copy_bytes b (pad_spaces (length b) (FormatInt i 8))"

text \<open>
  A call \<open>f(buf[lo:hi], ...)\<close> that writes through the slice: \<open>f\<close> maps the old contents
  of the slice to the new ones, the rest of \<open>buf\<close> is untouched.
\<close>

definition in_slice :: "nat \<Rightarrow> nat \<Rightarrow> (bytes \<Rightarrow> bytes) \<Rightarrow> bytes \<Rightarrow> bytes" where
  "in_slice lo hi f buf = take lo buf @ f (take (hi - lo) (drop lo buf)) @ drop hi buf"

text \<open>The buffer that \<open>WriteHeader\<close> fills before handing it to the sink.\<close>

definition header_record :: "Header \<Rightarrow> bytes" where
  "header_record header =
     (let buf = replicate HeaderByteSize (CHR 0x00);
          buf = in_slice 0 16 (\<lambda>b. writeString b (Name header)) buf;
          buf = in_slice 16 28 (\<lambda>b. writeInt b (Date header)) buf;
          buf = in_slice 28 34 (\<lambda>b. writeInt b (Uid header)) buf;
          buf = in_slice 34 40 (\<lambda>b. writeInt b (Gid header)) buf;
          buf = in_slice 40 48 (\<lambda>b. writeOctal b (Mode header)) buf;
          buf = in_slice 48 58 (\<lambda>b. writeInt b (Size header)) buf;
          buf = in_slice 58 60 (\<lambda>b. writeString b (''`'' @ [newline])) buf
      in buf)"

definition WriteHeader :: "Header \<Rightarrow> Writer \<Rightarrow> error option \<times> Writer" where
  "WriteHeader header w =
     (case sink_write (header_record header) (w_io w) of
        (k, Some err, io') \<Rightarrow> (Some err, w\<lparr>w_io := io'\<rparr>)
      | (k, None, io') \<Rightarrow> (None, w\<lparr>w_io := io', w_n := Size header\<rparr>))"

text \<open>
  \<open>Write\<close> returns the pair \<open>(n, err)\<close> of the source and the writer afterwards.
  \<open>int64(len(b)) > w.n\<close> compares signed values.
\<close>

definition Write :: "bytes \<Rightarrow> Writer \<Rightarrow> (nat \<times> error option) \<times> Writer" where
  "Write b w =
     (if int (length b) > sint (w_n w) then ((0, Some ErrWriteTooLong), w)
      else
        let b = (if length b mod 2 = 1 then b @ [newline] else b)
        in case sink_write b (w_io w) of
             (k, err, io') \<Rightarrow> ((k, err), w\<lparr>w_io := io'\<rparr>))"




section \<open>The underlying byte source\<close>

text \<open>
  The \<open>io.Reader\<close> under a \<open>Reader\<close> is an in-memory stream that may deliver less than it
  is asked for: \<open>pending\<close> holds the bytes not yet delivered, and the head of \<open>sched\<close>
  caps what the next \<open>Read\<close> call delivers (no cap once the schedule is used up).  At the
  end of the stream \<open>Read\<close> returns \<open>(0, io.EOF)\<close>.
\<close>

record src =
  pending :: bytes
  sched :: "nat list"

definition src_read :: "nat \<Rightarrow> src \<Rightarrow> bytes \<times> error option \<times> src" where
  "src_read k s =
     (if pending s = [] then ([], Some EOF, s)
      else
        let c = (case sched s of [] \<Rightarrow> k | x # xs \<Rightarrow> min k x)
        in (take c (pending s), None, \<lparr>pending = drop c (pending s), sched = tl (sched s)\<rparr>))"

text \<open>
  \<open>io.ReadFull(r, buf)\<close> is \<open>io.ReadAtLeast(r, buf, len(buf))\<close>: it calls \<open>Read\<close> until
  the buffer is full or an error comes back; an end of stream after some but not all bytes
  becomes \<open>io.ErrUnexpectedEOF\<close>.
\<close>

function read_at_least_loop :: "nat \<Rightarrow> bytes \<Rightarrow> src \<Rightarrow> bytes \<times> error option \<times> src" where
  "read_at_least_loop k acc s =
     (if length acc < k then
        (case src_read (k - length acc) s of
           (bs, None, s') \<Rightarrow> read_at_least_loop k (acc @ bs) s'
         | (bs, Some e, s') \<Rightarrow> (acc @ bs, Some e, s'))
      else (acc, None, s))"
  by pat_completeness auto
termination
  by (relation "measure (\<lambda>(k, acc, s). (k - length acc) + length (sched s))")
     (auto simp: src_read_def Let_def min_def split: if_splits list.splits, (case_tac "pending s", simp_all)+)

declare read_at_least_loop.simps [simp del]

definition ReadFull :: "nat \<Rightarrow> src \<Rightarrow> bytes \<times> error option \<times> src" where
  "ReadFull k s =
     (case read_at_least_loop k [] s of
        (buf, err, s') \<Rightarrow>
          if k \<le> length buf then (buf, None, s')
          else if 0 < length buf \<and> err = Some EOF then (buf, Some ErrUnexpectedEOF, s')
          else (buf, err, s'))"

text \<open>
  \<open>io.CopyN(ioutil.Discard, r, n)\<close>: the discarding writer reads through a limited reader
  with a buffer of 8192 bytes until the limit is used up or the stream ends; fewer than
  \<open>n\<close> bytes copied without another error is \<open>io.EOF\<close>.
\<close>

function discard_loop :: "nat \<Rightarrow> nat \<Rightarrow> src \<Rightarrow> nat \<times> error option \<times> src" where
  "discard_loop lim written s =
     (if lim = 0 then (written, None, s)
      else
        (case src_read (min 8192 lim) s of
           (bs, None, s') \<Rightarrow> discard_loop (lim - length bs) (written + length bs) s'
         | (bs, Some e, s') \<Rightarrow>
             (written + length bs, (if e = EOF then None else Some e), s')))"
  by pat_completeness auto
termination
  by (relation "measure (\<lambda>(lim, written, s). lim + length (sched s))")
     (auto simp: src_read_def Let_def min_def split: if_splits list.splits)

declare discard_loop.simps [simp del]

definition CopyN_Discard :: "int \<Rightarrow> src \<Rightarrow> nat \<times> error option \<times> src" where
  "CopyN_Discard n s =
     (case discard_loop (nat n) 0 s of
        (written, err, s') \<Rightarrow>
          if int written = n then (written, None, s')
          else if int written < n \<and> err = None then (written, Some EOF, s')
          else (written, err, s'))"

section \<open>Number parsing (\<open>strconv.ParseInt\<close>)\<close>

definition maxUint64 :: nat where
  "maxUint64 = 2 ^ 64 - 1"

text \<open>The value of a digit byte: \<open>0\<close> to \<open>9\<close>, then letters of either case from 10 on.\<close>

definition lower :: "nat \<Rightarrow> nat" where
  "lower c = or c 32"

definition digit_val :: "char \<Rightarrow> nat option" where
  "digit_val c =
     (let v = (of_char c :: nat) in
      if 48 \<le> v \<and> v \<le> 57 then Some (v - 48)
      else if 97 \<le> lower v \<and> lower v \<le> 122 then Some (lower v - 97 + 10)
      else None)"

fun parse_uint_loop :: "nat \<Rightarrow> nat \<Rightarrow> string \<Rightarrow> numerr + nat" where
  "parse_uint_loop base n [] = Inr n"
| "parse_uint_loop base n (c # cs) =
     (case digit_val c of
        None \<Rightarrow> Inl ErrSyntax
      | Some d \<Rightarrow>
          if base \<le> d then Inl ErrSyntax
          else if maxUint64 div base + 1 \<le> n then Inl ErrRange
          else if maxUint64 < n * base + d then Inl ErrRange
          else parse_uint_loop base (n * base + d) cs)"

definition ParseUint :: "string \<Rightarrow> nat \<Rightarrow> numerr + nat" where
  "ParseUint s base = (if s = [] then Inl ErrSyntax else parse_uint_loop base 0 s)"

definition ParseInt :: "string \<Rightarrow> nat \<Rightarrow> numerr + int64" where
  "ParseInt s base =
     (case s of
        [] \<Rightarrow> Inl ErrSyntax
      | c # cs \<Rightarrow>
          let neg = (c = CHR ''-'');
              s = (if c = CHR ''+'' \<or> c = CHR ''-'' then cs else s)
          in case ParseUint s base of
               Inl ErrSyntax \<Rightarrow> Inl ErrSyntax
             | r \<Rightarrow>
                 let un = (case r of Inl e \<Rightarrow> maxUint64 | Inr u \<Rightarrow> u)
                 in if \<not> neg \<and> 2 ^ 63 \<le> un then Inl ErrRange
                    else if neg \<and> 2 ^ 63 < un then Inl ErrRange
                    else Inr (if neg then - word_of_nat un else word_of_nat un))"

section \<open>Reader\<close>

record Reader =
  r_io :: src
  r_n :: int64
  r_p :: int64


text \<open>The loop \<open>for i > 0 && b[i] == ' ' { i-- }\<close>, started at \<open>len(b) - 1\<close>.\<close>

fun trim_index :: "bytes \<Rightarrow> nat \<Rightarrow> nat" where
  "trim_index b 0 = 0"
| "trim_index b (Suc i) = (if b ! Suc i = CHR '' '' then trim_index b i else Suc i)"

text \<open>\<open>b[0 : i+1]\<close> after the loop; for an empty \<open>b\<close> the index is \<open>-1\<close> and the slice is empty.\<close>

definition trimmed :: "bytes \<Rightarrow> bytes" where
  "trimmed b = (if b = [] then [] else take (trim_index b (length b - 1) + 1) b)"

definition readString :: "bytes \<Rightarrow> string" where
  "readString b = trimmed b"

definition readInt :: "bytes \<Rightarrow> numerr + int64" where
  "readInt b = ParseInt (trimmed b) 10"

definition readOctal :: "bytes \<Rightarrow> numerr + int64" where
  "readOctal b = ParseInt (trimmed b) 8"

text \<open>Go's remainder \<open>a % b\<close> truncates towards zero: the sign follows the dividend.\<close>

definition go_rem :: "int64 \<Rightarrow> int64 \<Rightarrow> int64" where
  "go_rem a b = word_of_int (sgn (sint a) * (\<bar>sint a\<bar> mod \<bar>sint b\<bar>))"

definition skipUnread :: "Reader \<Rightarrow> error option \<times> Reader" where
  "skipUnread r =
     (let s = r_n r + r_p r in
      case CopyN_Discard (sint s) (r_io r) of
        (k, Some err, io') \<Rightarrow> (Some err, r\<lparr>r_io := io'\<rparr>)
      | (k, None, io') \<Rightarrow> (None, r\<lparr>r_io := io', r_n := 0, r_p := 0\<rparr>))"

text \<open>The slice expression \<open>buf[lo:hi]\<close> of a buffer of at least \<open>hi\<close> bytes.\<close>

definition slice :: "nat \<Rightarrow> nat \<Rightarrow> bytes \<Rightarrow> bytes" where
  "slice lo hi buf = take (hi - lo) (drop lo buf)"

definition Next :: "Reader \<Rightarrow> (error + Header) \<times> Reader" where
  "Next r =
     (case skipUnread r of
        (Some err, r) \<Rightarrow> (Inl err, r)
      | (None, r) \<Rightarrow>
     (case ReadFull HeaderByteSize (r_io r) of
        (buf, Some err, io') \<Rightarrow> (Inl err, r\<lparr>r_io := io'\<rparr>)
      | (buf, None, io') \<Rightarrow>
     (let r = r\<lparr>r_io := io'\<rparr> in
      if length buf \<noteq> HeaderByteSize then (Inl ErrInvalidHeaderSize, r)
      else if buf ! 58 \<noteq> CHR ''`'' \<and> buf ! 59 \<noteq> newline then (Inl ErrInvalidHeaderEnding, r)
      else
     (case readInt (slice 16 28 buf) of
        Inl err \<Rightarrow> (Inl (ErrCannotParse FTimestamp err), r)
      | Inr date \<Rightarrow>
     (case readInt (slice 28 34 buf) of
        Inl err \<Rightarrow> (Inl (ErrCannotParse FOwner err), r)
      | Inr uid \<Rightarrow>
     (case readInt (slice 34 40 buf) of
        Inl err \<Rightarrow> (Inl (ErrCannotParse FGroup err), r)
      | Inr gid \<Rightarrow>
     (case readOctal (slice 40 48 buf) of
        Inl err \<Rightarrow> (Inl (ErrCannotParse FMode err), r)
      | Inr mode \<Rightarrow>
     (case readInt (slice 48 58 buf) of
        Inl err \<Rightarrow> (Inl (ErrCannotParse FSize err), r)
      | Inr fsize \<Rightarrow>
          let header = \<lparr>Name = readString (slice 0 16 buf), Date = date, Uid = uid,
                        Gid = gid, Mode = mode, Size = fsize\<rparr>
          in (Inr header, r\<lparr>r_n := Size header, r_p := go_rem (Size header) 2\<rparr>)))))))))"

text \<open>
  \<open>Read\<close> with a buffer of \<open>k\<close> bytes returns the bytes put into the buffer, the error,
  and the reader afterwards.  The slice expression \<open>b[0:r.n]\<close> panics when \<open>r.n\<close> is
  negative.
\<close>

definition Read :: "nat \<Rightarrow> Reader \<Rightarrow> (bytes \<times> error option) \<times> Reader" where
  "Read k r =
     (if r_n r = 0 then (([], Some EOF), r)
      else if int k > sint (r_n r) \<and> sint (r_n r) < 0 then (([], Some PanicSliceBounds), r)
      else
        let k = (if int k > sint (r_n r) then nat (sint (r_n r)) else k)
        in case src_read k (r_io r) of
             (out, err, io') \<Rightarrow>
               ((out, err), r\<lparr>r_io := io', r_n := r_n r - word_of_nat (length out)\<rparr>))"

section \<open>Reading and writing whole archives\<close>

text \<open>
  Reading an entry to exhaustion calls \<open>Read\<close> with a buffer of \<open>k + 1\<close> bytes until it
  returns \<open>io.EOF\<close>.  The loop ends because every call that returns no error either
  transfers a byte or uses up one entry of the schedule of the stream.
\<close>

lemma sint_sub_of_nat:
  fixes n :: int64
  assumes "int l \<le> sint n"
  shows "sint (n - word_of_nat l) = sint n - int l"
proof -
  have "n - word_of_nat l = word_of_int (sint n - int l)"
    by simp
  moreover have "sint n < 2 ^ 63"
    using sint_less [of n] by simp
  ultimately show ?thesis
    using assms by (simp only: signed_of_int) (simp add: signed_take_bit_int_eq_self)
qed









section \<open>Auxiliary notions for the proofs\<close>

text \<open>A string left-justified in a slot of \<open>k\<close> bytes: space-padded or cut to the slot.\<close>

definition fixed :: "nat \<Rightarrow> string \<Rightarrow> bytes" where
  "fixed k s = take k (s @ replicate (k - length s) (CHR '' ''))"

text \<open>
  What \<open>Next\<close> does with the 60 bytes of a header record once they are read: the check
  of the two terminator bytes, the five numeric fields in the order of the source, and the
  header built from them.
\<close>

definition parse_header :: "bytes \<Rightarrow> error + Header" where
  "parse_header buf =
     (if buf ! 58 \<noteq> CHR ''`'' \<and> buf ! 59 \<noteq> newline then Inl ErrInvalidHeaderEnding
      else
     (case readInt (slice 16 28 buf) of
        Inl err \<Rightarrow> Inl (ErrCannotParse FTimestamp err)
      | Inr date \<Rightarrow>
     (case readInt (slice 28 34 buf) of
        Inl err \<Rightarrow> Inl (ErrCannotParse FOwner err)
      | Inr uid \<Rightarrow>
     (case readInt (slice 34 40 buf) of
        Inl err \<Rightarrow> Inl (ErrCannotParse FGroup err)
      | Inr gid \<Rightarrow>
     (case readOctal (slice 40 48 buf) of
        Inl err \<Rightarrow> Inl (ErrCannotParse FMode err)
      | Inr mode \<Rightarrow>
     (case readInt (slice 48 58 buf) of
        Inl err \<Rightarrow> Inl (ErrCannotParse FSize err)
      | Inr fsize \<Rightarrow>
          Inr \<lparr>Name = readString (slice 0 16 buf), Date = date, Uid = uid,
               Gid = gid, Mode = mode, Size = fsize\<rparr>))))))"




section \<open>The header record\<close>

lemma replicate_numeral_Cons: "replicate (numeral k) x = x # replicate (pred_numeral k) x"
  by (simp add: numeral_eq_Suc)

lemma pad_spaces_eq: "pad_spaces k s = s @ replicate (k - length s) (CHR '' '')"
proof (induction k s rule: pad_spaces.induct)
  case (1 k s)
  show ?case
  proof (cases "length s < k")
    case True
    then have "k - length s = Suc (k - Suc (length s))" by simp
    with True 1 show ?thesis
      by (subst pad_spaces.simps) (simp add: replicate_app_Cons_same)
  next
    case False
    then show ?thesis by (subst pad_spaces.simps) simp
  qed
qed

lemma length_fixed [simp]: "length (fixed k s) = k"
  by (simp add: fixed_def)

lemma fixed_wide: "k \<le> length s \<Longrightarrow> fixed k s = take k s"
  by (simp add: fixed_def)

lemma copy_pad: "copy_bytes b (pad_spaces (length b) s) = fixed (length b) s"
  by (simp add: copy_bytes_def pad_spaces_eq fixed_def Let_def min_def)

lemma in_slice_fixed:
  "length pre = lo \<Longrightarrow> lo \<le> hi \<Longrightarrow> hi - lo \<le> length rest \<Longrightarrow>
   in_slice lo hi (\<lambda>b. copy_bytes b (pad_spaces (length b) s)) (pre @ rest) =
     (pre @ fixed (hi - lo) s) @ drop (hi - lo) rest"
  by (simp add: in_slice_def copy_pad)

lemma header_record_eq:
  "header_record h =
     fixed 16 (Name h) @ fixed 12 (FormatInt (Date h) 10) @ fixed 6 (FormatInt (Uid h) 10) @
     fixed 6 (FormatInt (Gid h) 10) @ fixed 8 (FormatInt (Mode h) 8) @
     fixed 10 (FormatInt (Size h) 10) @ ''`'' @ [newline]"
proof -
  let ?z = "CHR 0x00"
  let ?F1 = "fixed 16 (Name h)"
  let ?F2 = "?F1 @ fixed 12 (FormatInt (Date h) 10)"
  let ?F3 = "?F2 @ fixed 6 (FormatInt (Uid h) 10)"
  let ?F4 = "?F3 @ fixed 6 (FormatInt (Gid h) 10)"
  let ?F5 = "?F4 @ fixed 8 (FormatInt (Mode h) 8)"
  let ?F6 = "?F5 @ fixed 10 (FormatInt (Size h) 10)"
  have s1: "in_slice 0 16 (\<lambda>b. writeString b (Name h)) (replicate 60 ?z) = ?F1 @ replicate 44 ?z"
    using in_slice_fixed [of "[]" 0 16 "replicate 60 ?z" "Name h"]
    by (simp add: writeString_def)
  have s2: "in_slice 16 28 (\<lambda>b. writeInt b (Date h)) (?F1 @ replicate 44 ?z) = ?F2 @ replicate 32 ?z"
    using in_slice_fixed [of ?F1 16 28 "replicate 44 ?z" "FormatInt (Date h) 10"]
    by (simp add: writeInt_def)
  have s3: "in_slice 28 34 (\<lambda>b. writeInt b (Uid h)) (?F2 @ replicate 32 ?z) = ?F3 @ replicate 26 ?z"
    using in_slice_fixed [of ?F2 28 34 "replicate 32 ?z" "FormatInt (Uid h) 10"]
    by (simp add: writeInt_def)
  have s4: "in_slice 34 40 (\<lambda>b. writeInt b (Gid h)) (?F3 @ replicate 26 ?z) = ?F4 @ replicate 20 ?z"
    using in_slice_fixed [of ?F3 34 40 "replicate 26 ?z" "FormatInt (Gid h) 10"]
    by (simp add: writeInt_def)
  have s5: "in_slice 40 48 (\<lambda>b. writeOctal b (Mode h)) (?F4 @ replicate 20 ?z) = ?F5 @ replicate 12 ?z"
    using in_slice_fixed [of ?F4 40 48 "replicate 20 ?z" "FormatInt (Mode h) 8"]
    by (simp add: writeOctal_def)
  have s6: "in_slice 48 58 (\<lambda>b. writeInt b (Size h)) (?F5 @ replicate 12 ?z) = ?F6 @ replicate 2 ?z"
    using in_slice_fixed [of ?F5 48 58 "replicate 12 ?z" "FormatInt (Size h) 10"]
    by (simp add: writeInt_def)
  have f7: "fixed 2 (''`'' @ [newline]) = ''`'' @ [newline]"
    by (simp add: fixed_def)
  have s7: "in_slice 58 60 (\<lambda>b. writeString b (''`'' @ [newline])) (?F6 @ replicate 2 ?z) =
            ?F6 @ ''`'' @ [newline]"
    using in_slice_fixed [of ?F6 58 60 "replicate 2 ?z" "''`'' @ [newline]"] f7
    by (simp add: writeString_def)
  show ?thesis
    unfolding header_record_def Let_def HeaderByteSize_def
    by (simp only: s1 s2 s3 s4 s5 s6 s7, simp)
qed


lemma WriteHeader_eq:
  "WriteHeader h w = (None, w\<lparr>w_io := w_io w @ [header_record h], w_n := Size h\<rparr>)"
  by (simp add: WriteHeader_def sink_write_def)

section \<open>The loops over the byte stream\<close>

text \<open>
  Whatever the schedule of partial reads, the loops of \<open>io.CopyN\<close> and \<open>io.ReadFull\<close>
  consume exactly the bytes asked for, or all that is left of a shorter stream.
\<close>

lemma src_ex: "\<exists>sc. (s :: src) = \<lparr>pending = pending s, sched = sc\<rparr>"
  by (rule exI [of _ "sched s"]) simp

lemma drop_after_take:
  "c \<le> n \<Longrightarrow> drop (n - length (take c p)) (drop c p) = drop n p"
  by (cases "c \<le> length p") (simp_all add: min_def)

lemma take_after_take:
  "c \<le> n \<Longrightarrow> take c p @ take (n - length (take c p)) (drop c p) = take n p"
proof (cases "c \<le> length p")
  case True
  assume "c \<le> n"
  then have "c + (n - c) = n" by simp
  moreover have "take c p @ take (n - c) (drop c p) = take (c + (n - c)) p"
    by (simp only: take_add)
  ultimately show ?thesis using True by (simp add: min_def)
next
  case False
  assume "c \<le> n"
  with False show ?thesis by simp
qed

lemma length_after_take:
  "c \<le> n \<Longrightarrow>
   length (take c p) + min (n - length (take c p)) (length (drop c p)) = min n (length p)"
  by (auto simp: min_def)

lemma discard_loop_eq:
  "\<exists>sc. discard_loop lim wr s =
     (wr + min lim (length (pending s)), None, \<lparr>pending = drop lim (pending s), sched = sc\<rparr>)"
proof (induction lim wr s rule: discard_loop.induct)
  case (1 lim wr s)
  show ?case
  proof (cases "lim = 0")
    case True
    then show ?thesis by (subst discard_loop.simps) (simp add: src_ex)
  next
    case lim: False
    show ?thesis
    proof (cases "pending s = []")
      case True
      with lim src_ex [of s] show ?thesis
        by (subst discard_loop.simps) (simp add: src_read_def)
    next
      case False
      define c where "c = (case sched s of [] \<Rightarrow> min 8192 lim | x # xs \<Rightarrow> min (min 8192 lim) x)"
      define s' where "s' = \<lparr>pending = drop c (pending s), sched = tl (sched s)\<rparr>"
      have rd: "src_read (min 8192 lim) s = (take c (pending s), None, s')"
        using False by (simp add: src_read_def c_def s'_def Let_def)
      have cl: "c \<le> lim" by (auto simp: c_def split: list.splits)
      from 1 [OF lim rd [symmetric] refl refl] obtain sc where
        ih: "discard_loop (lim - length (take c (pending s))) (wr + length (take c (pending s))) s' =
          (wr + length (take c (pending s)) +
             min (lim - length (take c (pending s))) (length (pending s')), None,
           \<lparr>pending = drop (lim - length (take c (pending s))) (pending s'), sched = sc\<rparr>)"
        by blast
      have unfold: "discard_loop lim wr s =
          discard_loop (lim - length (take c (pending s))) (wr + length (take c (pending s))) s'"
        using lim rd by (subst discard_loop.simps) simp
      have ps: "pending s' = drop c (pending s)" by (simp add: s'_def)
      have "drop (lim - length (take c (pending s))) (pending s') = drop lim (pending s)"
        unfolding ps using cl by (rule drop_after_take)
      moreover have "length (take c (pending s)) +
             min (lim - length (take c (pending s))) (length (pending s')) =
             min lim (length (pending s))"
        unfolding ps using cl by (rule length_after_take)
      ultimately show ?thesis
        unfolding unfold ih by (simp add: add.assoc)
    qed
  qed
qed

lemma read_at_least_loop_eq:
  "length acc \<le> k \<Longrightarrow>
   \<exists>sc. read_at_least_loop k acc s =
     (acc @ take (k - length acc) (pending s),
      (if length acc + length (pending s) < k then Some EOF else None),
      \<lparr>pending = drop (k - length acc) (pending s), sched = sc\<rparr>)"
proof (induction k acc s rule: read_at_least_loop.induct)
  case (1 k acc s)
  show ?case
  proof (cases "length acc < k")
    case False
    with 1(2) show ?thesis by (subst read_at_least_loop.simps) (simp add: src_ex)
  next
    case lt: True
    show ?thesis
    proof (cases "pending s = []")
      case True
      with lt src_ex [of s] show ?thesis
        by (subst read_at_least_loop.simps) (simp add: src_read_def)
    next
      case False
      let ?need = "k - length acc"
      define c where "c = (case sched s of [] \<Rightarrow> ?need | x # xs \<Rightarrow> min ?need x)"
      define s' where "s' = \<lparr>pending = drop c (pending s), sched = tl (sched s)\<rparr>"
      let ?bs = "take c (pending s)"
      have rd: "src_read ?need s = (?bs, None, s')"
        using False by (simp add: src_read_def c_def s'_def Let_def)
      have cl: "c \<le> ?need" by (auto simp: c_def split: list.splits)
      have len: "length (acc @ ?bs) \<le> k" using cl lt by simp
      from 1(1) [OF lt rd [symmetric] refl refl len] obtain sc where
        ih: "read_at_least_loop k (acc @ ?bs) s' =
          ((acc @ ?bs) @ take (k - length (acc @ ?bs)) (pending s'),
           (if length (acc @ ?bs) + length (pending s') < k then Some EOF else None),
           \<lparr>pending = drop (k - length (acc @ ?bs)) (pending s'), sched = sc\<rparr>)"
        by blast
      have unfold: "read_at_least_loop k acc s = read_at_least_loop k (acc @ ?bs) s'"
        using lt rd by (subst read_at_least_loop.simps) simp
      have ps: "pending s' = drop c (pending s)" by (simp add: s'_def)
      have e: "k - length (acc @ ?bs) = ?need - length ?bs" by simp
      have a: "?bs @ take (k - length (acc @ ?bs)) (pending s') = take ?need (pending s)"
        unfolding ps e using cl by (rule take_after_take)
      have b: "drop (k - length (acc @ ?bs)) (pending s') = drop ?need (pending s)"
        unfolding ps e using cl by (rule drop_after_take)
      have c: "(length (acc @ ?bs) + length (pending s') < k) =
               (length acc + length (pending s) < k)"
        using cl by (auto simp: s'_def min_def)
      show ?thesis
        unfolding unfold ih using a b c by simp
    qed
  qed
qed

lemma ReadFull_eq:
  "\<exists>sc. ReadFull k s =
     (take k (pending s),
      (if k \<le> length (pending s) then None
       else if pending s = [] then Some EOF else Some ErrUnexpectedEOF),
      \<lparr>pending = drop k (pending s), sched = sc\<rparr>)"
proof -
  from read_at_least_loop_eq [of "[]" k s] obtain sc where
    "read_at_least_loop k [] s =
       (take k (pending s), (if length (pending s) < k then Some EOF else None),
        \<lparr>pending = drop k (pending s), sched = sc\<rparr>)"
    by auto
  then show ?thesis
    by (auto simp: ReadFull_def min_def)
qed

lemma CopyN_Discard_eq:
  "\<exists>sc. CopyN_Discard n s =
     (min (nat n) (length (pending s)),
      (if nat n \<le> length (pending s) then None else Some EOF),
      \<lparr>pending = drop (nat n) (pending s), sched = sc\<rparr>)"
proof -
  from discard_loop_eq [of "nat n" 0 s] obtain sc where
    "discard_loop (nat n) 0 s =
       (min (nat n) (length (pending s)), None,
        \<lparr>pending = drop (nat n) (pending s), sched = sc\<rparr>)"
    by auto
  then show ?thesis
    by (auto simp: CopyN_Discard_def min_def)
qed

lemma src_read_cases:
  "src_read k s = (bs, err, s') \<Longrightarrow> length bs \<le> k \<and> pending s = bs @ pending s'"
  by (auto simp: src_read_def Let_def split: if_splits list.splits)

section \<open>\<open>Next\<close> and \<open>Read\<close>\<close>

lemma Next_unfold:
  "Next r =
     (case skipUnread r of
        (Some err, r) \<Rightarrow> (Inl err, r)
      | (None, r) \<Rightarrow>
     (case ReadFull HeaderByteSize (r_io r) of
        (buf, Some err, io') \<Rightarrow> (Inl err, r\<lparr>r_io := io'\<rparr>)
      | (buf, None, io') \<Rightarrow>
          if length buf \<noteq> HeaderByteSize then (Inl ErrInvalidHeaderSize, r\<lparr>r_io := io'\<rparr>)
          else
            (case parse_header buf of
               Inl e \<Rightarrow> (Inl e, r\<lparr>r_io := io'\<rparr>)
             | Inr h \<Rightarrow> (Inr h, r\<lparr>r_io := io', r_n := Size h, r_p := go_rem (Size h) 2\<rparr>))))"
  by (simp add: Next_def parse_header_def Let_def
        split: prod.splits option.splits sum.splits)

lemma skipUnread_eq:
  assumes "pending (r_io r) = skip @ rest" and "length skip = nat (sint (r_n r + r_p r))"
  shows "\<exists>sc. skipUnread r = (None, \<lparr>r_io = \<lparr>pending = rest, sched = sc\<rparr>, r_n = 0, r_p = 0\<rparr>)"
proof -
  from CopyN_Discard_eq [of "sint (r_n r + r_p r)" "r_io r"] obtain sc where
    "CopyN_Discard (sint (r_n r + r_p r)) (r_io r) =
       (min (nat (sint (r_n r + r_p r))) (length (pending (r_io r))),
        (if nat (sint (r_n r + r_p r)) \<le> length (pending (r_io r)) then None else Some EOF),
        \<lparr>pending = drop (nat (sint (r_n r + r_p r))) (pending (r_io r)), sched = sc\<rparr>)"
    by blast
  with assms have "skipUnread r = (None, \<lparr>r_io = \<lparr>pending = rest, sched = sc\<rparr>, r_n = 0, r_p = 0\<rparr>)"
    by (simp add: skipUnread_def Let_def)
  then show ?thesis by blast
qed

lemma Next_after_skip:
  assumes "skipUnread r = (None, r1)"
  shows "\<exists>sc. Next r =
    (if length (pending (r_io r1)) < 60 then
       (Inl (if pending (r_io r1) = [] then EOF else ErrUnexpectedEOF),
        r1\<lparr>r_io := \<lparr>pending = [], sched = sc\<rparr>\<rparr>)
     else
       (case parse_header (take 60 (pending (r_io r1))) of
          Inl e \<Rightarrow> (Inl e, r1\<lparr>r_io := \<lparr>pending = drop 60 (pending (r_io r1)), sched = sc\<rparr>\<rparr>)
        | Inr h \<Rightarrow> (Inr h, r1\<lparr>r_io := \<lparr>pending = drop 60 (pending (r_io r1)), sched = sc\<rparr>,
                             r_n := Size h, r_p := go_rem (Size h) 2\<rparr>)))"
proof -
  from ReadFull_eq [of 60 "r_io r1"] obtain sc where
    rf: "ReadFull 60 (r_io r1) =
       (take 60 (pending (r_io r1)),
        (if 60 \<le> length (pending (r_io r1)) then None
         else if pending (r_io r1) = [] then Some EOF else Some ErrUnexpectedEOF),
        \<lparr>pending = drop 60 (pending (r_io r1)), sched = sc\<rparr>)"
    by blast
  have "Next r =
    (if length (pending (r_io r1)) < 60 then
       (Inl (if pending (r_io r1) = [] then EOF else ErrUnexpectedEOF),
        r1\<lparr>r_io := \<lparr>pending = [], sched = sc\<rparr>\<rparr>)
     else
       (case parse_header (take 60 (pending (r_io r1))) of
          Inl e \<Rightarrow> (Inl e, r1\<lparr>r_io := \<lparr>pending = drop 60 (pending (r_io r1)), sched = sc\<rparr>\<rparr>)
        | Inr h \<Rightarrow> (Inr h, r1\<lparr>r_io := \<lparr>pending = drop 60 (pending (r_io r1)), sched = sc\<rparr>,
                             r_n := Size h, r_p := go_rem (Size h) 2\<rparr>)))"
    using assms rf
    by (simp add: Next_unfold HeaderByteSize_def)
  then show ?thesis by blast
qed

lemma Next_parses:
  assumes "pending (r_io r) = skip @ rest"
    and "length skip = nat (sint (r_n r + r_p r))"
    and "60 \<le> length rest"
  shows "fst (Next r) = parse_header (take 60 rest)"
proof -
  from skipUnread_eq [OF assms(1,2)] obtain sc where
    "skipUnread r = (None, \<lparr>r_io = \<lparr>pending = rest, sched = sc\<rparr>, r_n = 0, r_p = 0\<rparr>)"
    by blast
  from Next_after_skip [OF this] assms(3) show ?thesis
    by (cases "parse_header (take 60 rest)") auto
qed

lemma Next_sets_counter:
  assumes "Next r = (Inr h, r')"
  shows "r_n r' = Size h" and "r_p r' = go_rem (Size h) 2"
  using assms
  by (auto simp: Next_unfold split: prod.splits option.splits sum.splits if_splits)

lemma Next_sets_counter_fst:
  assumes "fst (Next r) = Inr h"
  shows "r_n (snd (Next r)) = Size h"
  using assms Next_sets_counter(1) [of r h "snd (Next r)"]
  by (cases "Next r") simp

lemma Read_counts:
  assumes rd: "Read k r = ((out, err), r')"
  shows "length out \<le> min k (nat (sint (r_n r))) \<and>
         sint (r_n r') = sint (r_n r) - int (length out) \<and>
         pending (r_io r) = out @ pending (r_io r') \<and>
         (r_n r = 0 \<longrightarrow> out = [] \<and> err = Some EOF \<and> r' = r)"
proof (cases "r_n r = 0 \<or> (int k > sint (r_n r) \<and> sint (r_n r) < 0)")
  case True
  with rd show ?thesis by (auto simp: Read_def split: if_splits)
next
  case False
  let ?n = "sint (r_n r)"
  define k' where "k' = (if int k > ?n then nat ?n else k)"
  have k': "k' \<le> k" "int k' \<le> ?n" "k' \<le> nat ?n"
    using False by (auto simp: k'_def)
  from rd False have sr: "src_read k' (r_io r) = (out, err, r_io r')"
    and n': "r_n r' = r_n r - word_of_nat (length out)"
    by (auto simp: Read_def k'_def Let_def split: if_splits prod.splits)
  from src_read_cases [OF sr] have out: "length out \<le> k'"
    and pe: "pending (r_io r) = out @ pending (r_io r')"
    by simp_all
  have "sint (r_n r') = ?n - int (length out)"
    unfolding n' using out k' by (intro sint_sub_of_nat) simp
  with out k' pe False show ?thesis by simp
qed

section \<open>Trimming and digits\<close>



lemma trim_index_spaces: "i < m \<Longrightarrow> trim_index (replicate m (CHR '' '')) i = 0"
  by (induction i) simp_all

lemma trimmed_spaces:
  assumes "0 < m"
  shows "trimmed (replicate m (CHR '' '')) = '' ''"
proof -
  let ?b = "replicate m (CHR '' '')"
  have t: "trim_index ?b (m - 1) = 0"
    using assms by (simp add: trim_index_spaces)
  have "trimmed ?b = take (trim_index ?b (length ?b - 1) + 1) ?b"
    using assms by (simp add: trimmed_def)
  also have "\<dots> = take 1 ?b"
    using t by simp
  also have "\<dots> = '' ''"
    using assms by (cases m) simp_all
  finally show ?thesis .
qed









section \<open>Numbers and headers written and read back\<close>








lemma slices_of_record:
  assumes "length a = 16" "length b = 12" "length c = 6" "length d = 6" "length e = 8"
    "length f = 10"
  shows "slice 0 16 (a @ b @ c @ d @ e @ f @ g) = a"
    and "slice 16 28 (a @ b @ c @ d @ e @ f @ g) = b"
    and "slice 28 34 (a @ b @ c @ d @ e @ f @ g) = c"
    and "slice 34 40 (a @ b @ c @ d @ e @ f @ g) = d"
    and "slice 40 48 (a @ b @ c @ d @ e @ f @ g) = e"
    and "slice 48 58 (a @ b @ c @ d @ e @ f @ g) = f"
    and "(a @ b @ c @ d @ e @ f @ g) ! 58 = g ! 0"
    and "(a @ b @ c @ d @ e @ f @ g) ! 59 = g ! 1"
  using assms by (simp_all add: slice_def nth_append)

lemma parse_header_record:
  "parse_header (header_record h) =
     (case readInt (fixed 12 (FormatInt (Date h) 10)) of
        Inl err \<Rightarrow> Inl (ErrCannotParse FTimestamp err)
      | Inr date \<Rightarrow>
     (case readInt (fixed 6 (FormatInt (Uid h) 10)) of
        Inl err \<Rightarrow> Inl (ErrCannotParse FOwner err)
      | Inr uid \<Rightarrow>
     (case readInt (fixed 6 (FormatInt (Gid h) 10)) of
        Inl err \<Rightarrow> Inl (ErrCannotParse FGroup err)
      | Inr gid \<Rightarrow>
     (case readOctal (fixed 8 (FormatInt (Mode h) 8)) of
        Inl err \<Rightarrow> Inl (ErrCannotParse FMode err)
      | Inr mode \<Rightarrow>
     (case readInt (fixed 10 (FormatInt (Size h) 10)) of
        Inl err \<Rightarrow> Inl (ErrCannotParse FSize err)
      | Inr fsize \<Rightarrow>
          Inr \<lparr>Name = trimmed (fixed 16 (Name h)), Date = date, Uid = uid,
               Gid = gid, Mode = mode, Size = fsize\<rparr>)))))"
  unfolding parse_header_def header_record_eq
  by (simp only: slices_of_record length_fixed readString_def) simp


lemma fixed_trailing_spaces:
  "length s + m \<le> k \<Longrightarrow> fixed k (s @ replicate m (CHR '' '')) = fixed k s"
  by (simp add: fixed_def replicate_add [symmetric])

text \<open>The facts that evaluate the parse of a concrete header record.\<close>

lemmas eval_fields =
  parse_header_record fixed_def FormatInt_def fmt_nat.simps digit_char_def digits_def
  readInt_def readOctal_def trimmed_def ParseInt_def ParseUint_def digit_val_def lower_def
  maxUint64_def replicate_numeral_Cons

section \<open>Archives written and read back\<close>

lemma Write_accepted:
  "int (length b) \<le> sint (w_n w) \<Longrightarrow>
   Write b w =
     ((length b + (if odd (length b) then 1 else 0), None),
      w\<lparr>w_io := w_io w @ [b @ (if odd (length b) then [newline] else [])]\<rparr>)"
  by (simp add: Write_def sink_write_def odd_iff_mod_2_eq_one)












section \<open>Properties of the writer\<close>

text \<open>
  C3.  The claim: a successful \<open>Writer.Write\<close> of \<open>b\<close> leaves the remaining counter at
  \<open>n - len(b)\<close>.  The code never assigns \<open>w.n\<close> in \<open>Write\<close>: after \<open>WriteHeader\<close>
  with \<open>Size = 2\<close>, a write of two bytes succeeds and leaves the counter at 2, and a second
  write of two bytes succeeds as well, although the doc comment of \<open>Write\<close> promises
  \<open>ErrWriteTooLong\<close> once more than \<open>Header.Size\<close> bytes are written after
  \<open>WriteHeader\<close>.
\<close>

theorem Write_keeps_counter:
  "WriteHeader \<lparr>Name = ''f'', Date = 0, Uid = 0, Gid = 0, Mode = 420, Size = 2\<rparr> (NewWriter []) =
     (None, \<lparr>w_io = [''f               0           0     0     644     2         `'' @ [newline]],
             w_n = 2\<rparr>) \<and>
   Write ''ab'' \<lparr>w_io = [''f               0           0     0     644     2         `'' @ [newline]],
                 w_n = 2\<rparr> =
     ((2, None),
      \<lparr>w_io = [''f               0           0     0     644     2         `'' @ [newline], ''ab''],
        w_n = 2\<rparr>) \<and>
   Write ''cd'' \<lparr>w_io = [''f               0           0     0     644     2         `'' @ [newline],
                         ''ab''], w_n = 2\<rparr> =
     ((2, None),
      \<lparr>w_io = [''f               0           0     0     644     2         `'' @ [newline], ''ab'',
                ''cd''], w_n = 2\<rparr>)"
  by (simp add: Write_def sink_write_def WriteHeader_eq NewWriter_def FormatInt_def fmt_nat.simps
        digit_char_def digits_def header_record_eq fixed_def replicate_numeral_Cons)

text \<open>
  C4, as amended.  For every entry, on the first call of \<open>Writer.Write\<close> after
  \<open>WriteHeader\<close>, if the call is accepted (the buffer is no longer than the size of the
  entry), a single pad byte \<open>\n\<close> is appended if and only if the running total of payload
  bytes written for the entry after this write, which is the length of this buffer, is odd;
  payload and pad go to the sink in one underlying write, right after the header record.
\<close>

theorem Write_pad_first_write:
  "int (length b) \<le> sint (Size h) \<Longrightarrow>
   snd (fst (Write b (snd (WriteHeader h w)))) = None \<and>
   w_io (snd (Write b (snd (WriteHeader h w)))) =
     w_io w @ [header_record h, b @ (if odd (length b) then [newline] else [])]"
  by (simp add: WriteHeader_eq Write_accepted)

theorem Write_pad_first_write_witness:
  "int (length ''abc'') \<le> sint (Size \<lparr>Name = ''f'', Date = 0, Uid = 0, Gid = 0, Mode = 420,
                                      Size = 3\<rparr>) \<and>
   w_io (snd (Write ''abc'' (snd (WriteHeader
       \<lparr>Name = ''f'', Date = 0, Uid = 0, Gid = 0, Mode = 420, Size = 3\<rparr> (NewWriter []))))) =
     [''f               0           0     0     644     3         `'' @ [newline],
      ''abc'' @ [newline]] \<and>
   int (length ''ab'') \<le> sint (Size \<lparr>Name = ''f'', Date = 0, Uid = 0, Gid = 0, Mode = 420,
                                     Size = 2\<rparr>) \<and>
   w_io (snd (Write ''ab'' (snd (WriteHeader
       \<lparr>Name = ''f'', Date = 0, Uid = 0, Gid = 0, Mode = 420, Size = 2\<rparr> (NewWriter []))))) =
     [''f               0           0     0     644     2         `'' @ [newline], ''ab'']"
  using Write_pad_first_write [of "''abc''"
      "\<lparr>Name = ''f'', Date = 0, Uid = 0, Gid = 0, Mode = 420, Size = 3\<rparr>" "NewWriter []"]
    Write_pad_first_write [of "''ab''"
      "\<lparr>Name = ''f'', Date = 0, Uid = 0, Gid = 0, Mode = 420, Size = 2\<rparr>" "NewWriter []"]
  by (simp add: NewWriter_def FormatInt_def fmt_nat.simps digit_char_def digits_def
        header_record_eq fixed_def replicate_numeral_Cons)

text \<open>
  C4 as stated fails from the second write of an entry on: in an entry of size 2 written
  as two one-byte buffers, both calls are accepted, the running total after the second call
  is 2, which is even, and the second call still appends a pad byte.
\<close>

theorem Write_pad_running_total_counterexample:
  "WriteHeader \<lparr>Name = ''f'', Date = 0, Uid = 0, Gid = 0, Mode = 420, Size = 2\<rparr> (NewWriter []) =
     (None, \<lparr>w_io = [''f               0           0     0     644     2         `'' @ [newline]],
             w_n = 2\<rparr>) \<and>
   Write ''a'' \<lparr>w_io = [''f               0           0     0     644     2         `'' @ [newline]],
                w_n = 2\<rparr> =
     ((2, None),
      \<lparr>w_io = [''f               0           0     0     644     2         `'' @ [newline],
                ''a'' @ [newline]], w_n = 2\<rparr>) \<and>
   Write ''b'' \<lparr>w_io = [''f               0           0     0     644     2         `'' @ [newline],
                        ''a'' @ [newline]], w_n = 2\<rparr> =
     ((2, None),
      \<lparr>w_io = [''f               0           0     0     644     2         `'' @ [newline],
                ''a'' @ [newline], ''b'' @ [newline]], w_n = 2\<rparr>) \<and>
   even (length ''a'' + length ''b'')"
  by (simp add: Write_def sink_write_def WriteHeader_eq NewWriter_def FormatInt_def fmt_nat.simps
        digit_char_def digits_def header_record_eq fixed_def replicate_numeral_Cons)

text \<open>
  C6.  For every writer and every buffer longer than the remaining counter, \<open>Write\<close>
  returns \<open>(0, ErrWriteTooLong)\<close> and the writer is unchanged: nothing reaches the sink
  and the counter keeps its value.
\<close>

theorem Write_too_long:
  "sint (w_n w) < int (length b) \<Longrightarrow> Write b w = ((0, Some ErrWriteTooLong), w)"
  by (simp add: Write_def)

theorem Write_too_long_witness:
  "sint (w_n \<lparr>w_io = [''xy''], w_n = 2\<rparr>) < int (length ''abc'') \<and>
   Write ''abc'' \<lparr>w_io = [''xy''], w_n = 2\<rparr> =
     ((0, Some ErrWriteTooLong), \<lparr>w_io = [''xy''], w_n = 2\<rparr>)"
  using Write_too_long [of "\<lparr>w_io = [''xy''], w_n = 2\<rparr>" "''abc''"] by simp

text \<open>
  C9.  For every header, \<open>WriteHeader\<close> returns no error and hands one record of 60 bytes
  to the sink; a numeric field whose rendering (decimal for Date, Uid, Gid and Size, octal
  for Mode) is wider than its slot leaves in the slot the first bytes of the rendering, as
  many as the slot is wide.
\<close>

theorem WriteHeader_overflow:
  "WriteHeader h w = (None, w\<lparr>w_io := w_io w @ [header_record h], w_n := Size h\<rparr>) \<and>
   length (header_record h) = 60 \<and>
   (12 < length (FormatInt (Date h) 10) \<longrightarrow>
      take 12 (drop 16 (header_record h)) = take 12 (FormatInt (Date h) 10)) \<and>
   (6 < length (FormatInt (Uid h) 10) \<longrightarrow>
      take 6 (drop 28 (header_record h)) = take 6 (FormatInt (Uid h) 10)) \<and>
   (6 < length (FormatInt (Gid h) 10) \<longrightarrow>
      take 6 (drop 34 (header_record h)) = take 6 (FormatInt (Gid h) 10)) \<and>
   (8 < length (FormatInt (Mode h) 8) \<longrightarrow>
      take 8 (drop 40 (header_record h)) = take 8 (FormatInt (Mode h) 8)) \<and>
   (10 < length (FormatInt (Size h) 10) \<longrightarrow>
      take 10 (drop 48 (header_record h)) = take 10 (FormatInt (Size h) 10))"
  by (simp add: WriteHeader_eq header_record_eq fixed_wide)

theorem WriteHeader_overflow_witness:
  "12 < length (FormatInt 1234567890123 10) \<and> 6 < length (FormatInt 1234567 10) \<and>
   6 < length (FormatInt (- 123456) 10) \<and> 8 < length (FormatInt 16777216 8) \<and>
   10 < length (FormatInt 12345678901 10) \<and>
   fst (WriteHeader \<lparr>Name = ''x'', Date = 1234567890123, Uid = 1234567, Gid = - 123456,
           Mode = 16777216, Size = 12345678901\<rparr> (NewWriter [])) = None \<and>
   header_record \<lparr>Name = ''x'', Date = 1234567890123, Uid = 1234567, Gid = - 123456,
           Mode = 16777216, Size = 12345678901\<rparr> =
     ''x               123456789012123456-12345100000001234567890`'' @ [newline]"
  using WriteHeader_overflow [of "\<lparr>Name = ''x'', Date = 1234567890123, Uid = 1234567,
           Gid = - 123456, Mode = 16777216, Size = 12345678901\<rparr>" "NewWriter []"]
  by (simp add: FormatInt_def fmt_nat.simps digit_char_def digits_def header_record_eq
        fixed_def replicate_numeral_Cons)

text \<open>
  C10.  For every header whose name is longer than 16 bytes, \<open>WriteHeader\<close> returns no
  error, the record handed to the sink has exactly 60 bytes, and its name slot holds the
  first 16 bytes of the name.
\<close>

theorem WriteHeader_long_name:
  "16 < length (Name h) \<Longrightarrow>
   WriteHeader h w = (None, w\<lparr>w_io := w_io w @ [header_record h], w_n := Size h\<rparr>) \<and>
   length (header_record h) = 60 \<and>
   take 16 (header_record h) = take 16 (Name h)"
  by (simp add: WriteHeader_eq header_record_eq fixed_wide)

theorem WriteHeader_long_name_witness:
  "16 < length (Name \<lparr>Name = ''a-very-long-member-name'', Date = 0, Uid = 0, Gid = 0,
           Mode = 420, Size = 0\<rparr>) \<and>
   WriteHeader \<lparr>Name = ''a-very-long-member-name'', Date = 0, Uid = 0, Gid = 0,
           Mode = 420, Size = 0\<rparr> (NewWriter []) =
     (None, \<lparr>w_io = [''a-very-long-memb0           0     0     644     0         `'' @ [newline]],
             w_n = 0\<rparr>)"
  using WriteHeader_long_name [of "\<lparr>Name = ''a-very-long-member-name'', Date = 0, Uid = 0,
           Gid = 0, Mode = 420, Size = 0\<rparr>" "NewWriter []"]
  by (simp add: NewWriter_def FormatInt_def fmt_nat.simps digit_char_def digits_def
        header_record_eq fixed_def replicate_numeral_Cons)

section \<open>Properties of the reader\<close>

text \<open>
  C2.  The claim: a header record whose byte 58 is not a backtick or whose byte 59 is not a
  newline makes \<open>Next\<close> return a format error.  The code rejects a record only when
  both bytes are wrong (its test joins the two inequalities with \<open>&&\<close>): a record that
  ends in a backtick followed by \<open>X\<close> is parsed into a header.
\<close>

theorem Next_accepts_bad_terminator:
  "fst (Next \<lparr>r_io = \<lparr>pending =
       ''debian-binary   1342943816  0     0     100644  4         `X'' @ ''2.0'' @ [newline],
       sched = []\<rparr>, r_n = 0, r_p = 0\<rparr>) =
   Inr \<lparr>Name = ''debian-binary'', Date = 1342943816, Uid = 0, Gid = 0, Mode = 33188, Size = 4\<rparr>"
proof -
  let ?rest = "''debian-binary   1342943816  0     0     100644  4         `X'' @ ''2.0'' @ [newline]"
  let ?r = "\<lparr>r_io = \<lparr>pending = ?rest, sched = []\<rparr>, r_n = 0, r_p = 0\<rparr>"
  have "fst (Next ?r) = parse_header (take 60 ?rest)"
    by (rule Next_parses [of ?r "[]"]) simp_all
  also have "parse_header (take 60 ?rest) =
    Inr \<lparr>Name = ''debian-binary'', Date = 1342943816, Uid = 0, Gid = 0, Mode = 33188, Size = 4\<rparr>"
    by (simp add: parse_header_def slice_def readInt_def readOctal_def readString_def
          trimmed_def ParseInt_def ParseUint_def digit_val_def lower_def maxUint64_def newline_def)
  finally show ?thesis .
qed

text \<open>
  C7.  At a header boundary, that is once the \<open>r.n + r.p\<close> bytes left of the previous
  entry (unread payload and pad byte) are skipped, \<open>Next\<close> returns \<open>io.EOF\<close> when
  no byte follows and \<open>io.ErrUnexpectedEOF\<close>, never a header, when between 1 and 59 bytes
  follow; the counters and the schedule of partial reads are arbitrary.
\<close>

theorem Next_end_of_archive:
  assumes "pending (r_io r) = skip @ rest"
    and "length skip = nat (sint (r_n r + r_p r))"
    and "length rest < 60"
  shows "fst (Next r) = Inl (if rest = [] then EOF else ErrUnexpectedEOF)"
proof -
  from skipUnread_eq [OF assms(1,2)] obtain sc where
    "skipUnread r = (None, \<lparr>r_io = \<lparr>pending = rest, sched = sc\<rparr>, r_n = 0, r_p = 0\<rparr>)"
    by blast
  from Next_after_skip [OF this] assms(3) show ?thesis
    by auto
qed

theorem Next_end_of_archive_witness:
  "length ''abc'' = nat (sint (2 + 1 :: int64)) \<and> length ''member.txt'' < 60 \<and>
   fst (Next \<lparr>r_io = \<lparr>pending = ''abc'', sched = [1, 0]\<rparr>, r_n = 2, r_p = 1\<rparr>) = Inl EOF \<and>
   fst (Next \<lparr>r_io = \<lparr>pending = ''abc'' @ ''member.txt'', sched = []\<rparr>, r_n = 2, r_p = 1\<rparr>) =
     Inl ErrUnexpectedEOF \<and>
   fst (Next \<lparr>r_io = \<lparr>pending = [], sched = []\<rparr>, r_n = 0, r_p = 0\<rparr>) = Inl EOF"
  using Next_end_of_archive [of "\<lparr>r_io = \<lparr>pending = ''abc'', sched = [1, 0]\<rparr>, r_n = 2, r_p = 1\<rparr>"
      "''abc''" "[]"]
    Next_end_of_archive [of "\<lparr>r_io = \<lparr>pending = ''abc'' @ ''member.txt'', sched = []\<rparr>,
      r_n = 2, r_p = 1\<rparr>" "''abc''" "''member.txt''"]
    Next_end_of_archive [of "\<lparr>r_io = \<lparr>pending = [], sched = []\<rparr>, r_n = 0, r_p = 0\<rparr>" "[]" "[]"]
  by simp

text \<open>
  C8.  For every reader and every buffer length \<open>k\<close>, the bytes \<open>Read\<close> returns are
  at most \<open>min(k, r.n)\<close>, they are the next bytes of the stream, and the counter goes
  down by their number; with the counter at zero \<open>Read\<close> returns \<open>(0, io.EOF)\<close> and
  leaves reader and stream as they are.  Hence after a \<open>Next\<close> that returns a header
  of size 0 the first \<open>Read\<close> returns \<open>(0, io.EOF)\<close>.
\<close>

theorem Read_transfer:
  "(Read k r = ((out, err), r') \<longrightarrow>
      length out \<le> min k (nat (sint (r_n r))) \<and>
      sint (r_n r') = sint (r_n r) - int (length out) \<and>
      pending (r_io r) = out @ pending (r_io r') \<and>
      (r_n r = 0 \<longrightarrow> out = [] \<and> err = Some EOF \<and> r' = r)) \<and>
   (fst (Next r0) = Inr h \<and> Size h = 0 \<longrightarrow>
      Read k (snd (Next r0)) = (([], Some EOF), snd (Next r0)))"
proof (rule conjI)
  show "Read k r = ((out, err), r') \<longrightarrow>
      length out \<le> min k (nat (sint (r_n r))) \<and>
      sint (r_n r') = sint (r_n r) - int (length out) \<and>
      pending (r_io r) = out @ pending (r_io r') \<and>
      (r_n r = 0 \<longrightarrow> out = [] \<and> err = Some EOF \<and> r' = r)"
    using Read_counts by blast
  show "fst (Next r0) = Inr h \<and> Size h = 0 \<longrightarrow>
      Read k (snd (Next r0)) = (([], Some EOF), snd (Next r0))"
  proof
    assume "fst (Next r0) = Inr h \<and> Size h = 0"
    then have "r_n (snd (Next r0)) = 0" using Next_sets_counter_fst [of r0 h] by simp
    then show "Read k (snd (Next r0)) = (([], Some EOF), snd (Next r0))"
      by (simp add: Read_def)
  qed
qed

theorem Read_transfer_witness:
  "Read 4 \<lparr>r_io = \<lparr>pending = ''abcdef'', sched = [2]\<rparr>, r_n = 3, r_p = 1\<rparr> =
     ((''ab'', None), \<lparr>r_io = \<lparr>pending = ''cdef'', sched = []\<rparr>, r_n = 1, r_p = 1\<rparr>) \<and>
   Read 4 \<lparr>r_io = \<lparr>pending = ''cdef'', sched = []\<rparr>, r_n = 1, r_p = 1\<rparr> =
     ((''c'', None), \<lparr>r_io = \<lparr>pending = ''def'', sched = []\<rparr>, r_n = 0, r_p = 1\<rparr>) \<and>
   fst (Next \<lparr>r_io = \<lparr>pending =
       ''empty           0           0     0     644     0         `'' @ [newline],
       sched = []\<rparr>, r_n = 0, r_p = 0\<rparr>) =
     Inr \<lparr>Name = ''empty'', Date = 0, Uid = 0, Gid = 0, Mode = 420, Size = 0\<rparr> \<and>
   Read 4 (snd (Next \<lparr>r_io = \<lparr>pending =
       ''empty           0           0     0     644     0         `'' @ [newline],
       sched = []\<rparr>, r_n = 0, r_p = 0\<rparr>)) =
     (([], Some EOF), snd (Next \<lparr>r_io = \<lparr>pending =
       ''empty           0           0     0     644     0         `'' @ [newline],
       sched = []\<rparr>, r_n = 0, r_p = 0\<rparr>))"
proof -
  let ?rec = "''empty           0           0     0     644     0         `'' @ [newline]"
  let ?q = "\<lparr>r_io = \<lparr>pending = ?rec, sched = []\<rparr>, r_n = 0, r_p = 0\<rparr>"
  let ?h = "\<lparr>Name = ''empty'', Date = 0, Uid = 0, Gid = 0, Mode = 420, Size = 0\<rparr>"
  let ?r = "\<lparr>r_io = \<lparr>pending = ''abcdef'', sched = [2]\<rparr>, r_n = 3, r_p = 1\<rparr>"
  let ?t = "\<lparr>r_io = \<lparr>pending = ''cdef'', sched = []\<rparr>, r_n = 1, r_p = 1\<rparr>"
  have a: "Read 4 ?r = ((''ab'', None), ?t)"
    by (simp add: Read_def src_read_def)
  have b: "Read 4 ?t = ((''c'', None), \<lparr>r_io = \<lparr>pending = ''def'', sched = []\<rparr>, r_n = 0, r_p = 1\<rparr>)"
    by (simp add: Read_def src_read_def)
  have "fst (Next ?q) = parse_header (take 60 ?rec)"
    by (rule Next_parses [of ?q "[]"]) simp_all
  also have "parse_header (take 60 ?rec) = Inr ?h"
    by (simp add: parse_header_def slice_def readInt_def readOctal_def readString_def
          trimmed_def ParseInt_def ParseUint_def digit_val_def lower_def maxUint64_def newline_def)
  finally have c: "fst (Next ?q) = Inr ?h" .
  from Read_transfer [of 4 ?r "''ab''" None ?t ?q ?h] a b c
  show ?thesis by simp
qed

section \<open>Round trip\<close>




text \<open>
  C5.  The claim: a name of 0 bytes round-trips as the empty string.  The trimming loop of
  \<open>readString\<close> stops at index 0 without looking at the byte there (\<open>i > 0\<close>), so the
  empty name, written as 16 spaces, is read back as a name of one space.
\<close>

theorem empty_name_reads_back_as_space:
  "WriteHeader \<lparr>Name = [], Date = 0, Uid = 0, Gid = 0, Mode = 420, Size = 0\<rparr> (NewWriter []) =
     (None, \<lparr>w_io = [''                0           0     0     644     0         `'' @ [newline]],
             w_n = 0\<rparr>) \<and>
   fst (Next \<lparr>r_io = \<lparr>pending =
       ''                0           0     0     644     0         `'' @ [newline],
       sched = []\<rparr>, r_n = 0, r_p = 0\<rparr>) =
     Inr \<lparr>Name = '' '', Date = 0, Uid = 0, Gid = 0, Mode = 420, Size = 0\<rparr>"
proof
  let ?h = "\<lparr>Name = [], Date = 0, Uid = 0, Gid = 0, Mode = 420, Size = 0\<rparr>"
  let ?rec = "''                0           0     0     644     0         `'' @ [newline]"
  have rec: "header_record ?h = ?rec"
    by (simp add: header_record_eq fixed_def FormatInt_def fmt_nat.simps digit_char_def
          digits_def replicate_numeral_Cons)
  show "WriteHeader ?h (NewWriter []) = (None, \<lparr>w_io = [?rec], w_n = 0\<rparr>)"
    by (simp add: WriteHeader_eq rec NewWriter_def)
  let ?r = "\<lparr>r_io = \<lparr>pending = ?rec, sched = []\<rparr>, r_n = 0, r_p = 0\<rparr>"
  have "fst (Next ?r) = parse_header (take 60 ?rec)"
    by (rule Next_parses [of ?r "[]"]) simp_all
  also have "take 60 ?rec = header_record ?h"
    by (simp add: rec)
  also have "parse_header (header_record ?h) = Inr (?h\<lparr>Name := '' ''\<rparr>)"
    by (simp add: eval_fields)
  finally show "fst (Next ?r) = Inr \<lparr>Name = '' '', Date = 0, Uid = 0, Gid = 0, Mode = 420, Size = 0\<rparr>"
    by simp
qed

end
